theory Spec2Isabelle
  imports Complex_Main
begin

section \<open>Python exceptions\<close>

text \<open>
  The exceptions the modelled functions can raise. \<open>EmptyGraph\<close> is the input error the
  specification names for an empty edge list; none of the source files ever raises it, it
  is here so that the statements about it can be written down.
\<close>

datatype error =
    IndexError | KeyError | ValueError | RecursionError | TimeoutError | LinAlgError
  | UnboundLocalError | EmptyGraph

section \<open>recursion.py: \<open>recurlists\<close>\<close>

text \<open>
  \<^verbatim>\<open>for i in xs: l += body(i)\<close> with an exception of the body leaving the loop.
\<close>

fun for_each :: "'a list \<Rightarrow> ('a \<Rightarrow> error + 'b list) \<Rightarrow> error + 'b list" where
  "for_each [] body = Inr []"
| "for_each (i # rest) body =
     (case body i of
        Inl e \<Rightarrow> Inl e
      | Inr ys \<Rightarrow> (case for_each rest body of Inl e \<Rightarrow> Inl e | Inr zs \<Rightarrow> Inr (ys @ zs)))"

lemma for_each_cong [fundef_cong]:
  "xs = ys \<Longrightarrow> (\<And>i. i \<in> set ys \<Longrightarrow> f i = g i) \<Longrightarrow> for_each xs f = for_each ys g"
  by (induction ys arbitrary: xs) (auto split: sum.splits)

text \<open>
  \<^verbatim>\<open>recurlists(numloops, points)\<close>. For \<open>numloops < 1\<close> the recursion never reaches
  \<open>numloops == 1\<close>: with \<open>points \<ge> 0\<close> the loop over \<open>range(points + 1)\<close> calls itself
  without end and Python raises RecursionError; with \<open>points < 0\<close> the range is empty and
  the empty list is returned.
\<close>

function recurlists :: "int \<Rightarrow> int \<Rightarrow> error + int list list" where
  "recurlists numloops points =
     (if numloops = 1 then Inr [[points]]
      else if numloops < 1 \<and> 0 \<le> points then Inl RecursionError
      else if numloops < 1 then Inr []
      else for_each [0..points]
             (\<lambda>i. case recurlists (numloops - 1) (points - i) of
                     Inl e \<Rightarrow> Inl e
                   | Inr sublist \<Rightarrow> Inr (map (\<lambda>entry. i # entry) sublist)))"
  by pat_completeness auto
termination
  by (relation "measure (\<lambda>(numloops, points). nat numloops)") auto

declare recurlists.simps [simp del]

text \<open>The weak compositions of \<open>points\<close> into \<open>numloops\<close> non-negative parts.\<close>

definition compositions :: "int \<Rightarrow> int \<Rightarrow> int list set" where
  "compositions numloops points =
     {xs. int (length xs) = numloops \<and> (\<forall>x \<in> set xs. 0 \<le> x) \<and> sum_list xs = points}"

section \<open>recursion2.py: \<open>getNextStrings\<close>, \<open>getLang\<close>, \<open>recursion\<close>\<close>

text \<open>
  \<^verbatim>\<open>s.split(sep)\<close> for a one-character separator: the pieces between the separators,
  empty pieces included, so the result is never empty.
\<close>

fun split_on :: "char \<Rightarrow> string \<Rightarrow> string list" where
  "split_on sep [] = [[]]"
| "split_on sep (c # cs) =
     (let pieces = split_on sep cs
      in if c = sep then [] # pieces else (c # hd pieces) # tl pieces)"

text \<open>
  The rule dictionary maps strings to strings; \<^verbatim>\<open>char in dict\<close> looks up the
  one-character string \<open>[char]\<close>. The loop of \<^verbatim>\<open>getNextStrings\<close> over the characters
  of \<open>current\<close> carries \<open>returnlist\<close>, which starts as \<^verbatim>\<open>[""]\<close>.
\<close>

fun getNextStrings_loop :: "(string \<rightharpoonup> string) \<Rightarrow> string \<Rightarrow> string list \<Rightarrow> string list" where
  "getNextStrings_loop dict [] returnlist = returnlist"
| "getNextStrings_loop dict (char # rest) returnlist =
     (case dict [char] of
        Some rule \<Rightarrow>
          getNextStrings_loop dict rest
            (concat (map (\<lambda>option. map (\<lambda>str. str @ option) returnlist)
                       (split_on CHR ''|'' rule)))
      | None \<Rightarrow> getNextStrings_loop dict rest (map (\<lambda>str. str @ [char]) returnlist))"

definition getNextStrings :: "(string \<rightharpoonup> string) \<Rightarrow> string \<Rightarrow> string list" where
  "getNextStrings dict current = getNextStrings_loop dict current ['''']"

text \<open>
  \<^verbatim>\<open>getLang(num, dict, current)\<close> need not terminate (a rule \<^verbatim>\<open>x -> x\<close> rewrites for
  ever); Python then raises RecursionError when the nesting of calls reaches its limit.
  The first argument is the number of nested calls still allowed.
\<close>

fun getLang :: "nat \<Rightarrow> int \<Rightarrow> (string \<rightharpoonup> string) \<Rightarrow> string \<Rightarrow> error + string list" where
  "getLang 0 num dict current = Inl RecursionError"
| "getLang (Suc depth) num dict current =
     (if \<not> list_ex (\<lambda>char. dict [char] \<noteq> None) current then Inr [current]
      else if int (length current) \<le> num then
        for_each (getNextStrings dict current) (\<lambda>str. getLang depth num dict str)
      else Inr [])"

text \<open>
  The loop \<^verbatim>\<open>for str in inLanguage: returnlist[len(str)] += 1\<close>; the index is never
  negative, and past the end of the list the write raises IndexError.
\<close>

fun count_lengths :: "string list \<Rightarrow> int list \<Rightarrow> error + int list" where
  "count_lengths [] returnlist = Inr returnlist"
| "count_lengths (str # rest) returnlist =
     (if length str < length returnlist
      then count_lengths rest (returnlist[length str := returnlist ! length str + 1])
      else Inl IndexError)"

definition recursion :: "nat \<Rightarrow> int \<Rightarrow> (string \<rightharpoonup> string) \<Rightarrow> string \<Rightarrow> error + int list" where
  "recursion depth num dict start =
     (case getLang depth num dict start of
        Inl e \<Rightarrow> Inl e
      | Inr inLanguage \<Rightarrow> count_lengths inLanguage (replicate (nat (num + 1)) 0))"

section \<open>sympycfg2.py and CFG2CFG.py: the equation builders\<close>

subsection \<open>Shared Python operations\<close>

definition bind_err :: "error + 'a \<Rightarrow> ('a \<Rightarrow> error + 'b) \<Rightarrow> error + 'b" where
  "bind_err r f = (case r of Inl e \<Rightarrow> Inl e | Inr v \<Rightarrow> f v)"

text \<open>\<^verbatim>\<open>xs[i]\<close> on a list: index \<open>-1\<close> is the last element, and IndexError outside \<open>-len \<dots> len - 1\<close>.\<close>

definition list_get :: "'a list \<Rightarrow> int \<Rightarrow> error + 'a" where
  "list_get xs i =
     (if 0 \<le> i \<and> i < int (length xs) then Inr (xs ! nat i)
      else if i < 0 \<and> - int (length xs) \<le> i then Inr (xs ! nat (int (length xs) + i))
      else Inl IndexError)"

text \<open>
  \<^verbatim>\<open>d[k] = v\<close> on a dictionary, which keeps its keys in the order of their first
  insertion: an association list without repeated keys.
\<close>

fun dict_set :: "'k \<Rightarrow> 'v \<Rightarrow> ('k \<times> 'v) list \<Rightarrow> ('k \<times> 'v) list" where
  "dict_set k v [] = [(k, v)]"
| "dict_set k v ((k', v') # d) = (if k' = k then (k, v) # d else (k', v') # dict_set k v d)"

text \<open>
  A Python string is a list of Unicode code points. \<^verbatim>\<open>chr(i)\<close> is the one-character
  string of code point \<open>i\<close> and raises ValueError outside \<open>0 \<dots> 0x10FFFF\<close>; \<open>lit\<close> embeds an
  ASCII literal; \<open>str_int\<close> is \<^verbatim>\<open>str\<close> on an integer.
\<close>

type_synonym pystr = "int list"

definition py_chr :: "int \<Rightarrow> error + int" where
  "py_chr i = (if 0 \<le> i \<and> i < 1114112 then Inr i else Inl ValueError)"

definition lit :: "string \<Rightarrow> pystr" where
  "lit s = map (\<lambda>c. int (of_char c)) s"

fun str_nat :: "nat \<Rightarrow> pystr" where
  "str_nat n = (if n < 10 then [48 + int n] else str_nat (n div 10) @ [48 + int (n mod 10)])"

definition str_int :: "int \<Rightarrow> pystr" where
  "str_int k = (if k < 0 then 45 # str_nat (nat (- k)) else str_nat (nat k))"

text \<open>
  Both builders start by turning the edge list into \<open>edgedict\<close>: start node to the list
  of its end nodes, in the order of the edge list. The source keys it by \<^verbatim>\<open>str(edge[0])\<close>
  and reads the node back with \<^verbatim>\<open>int(startnode)\<close>; the model keys it by the node itself.
  An edge is the pair of \<^verbatim>\<open>edge[0]\<close> and \<^verbatim>\<open>edge[1]\<close>.
\<close>

type_synonym edge = "int \<times> int"

fun make_edgedict :: "edge list \<Rightarrow> (int \<times> int list) list \<Rightarrow> (int \<times> int list) list" where
  "make_edgedict [] edgedict = edgedict"
| "make_edgedict (edge # rest) edgedict =
     make_edgedict rest
       (dict_set (fst edge)
          (case map_of edgedict (fst edge) of
             Some ends \<Rightarrow> ends @ [snd edge]
           | None \<Rightarrow> [snd edge])
          edgedict)"

subsection \<open>sympycfg2.py: \<open>calculateSystem\<close>\<close>

text \<open>
  The sympy expressions the builder makes, as the tree of the operations it applies:
  integers, symbols (named by the code point of their one-character name), sums,
  products and integer powers. \<open>eval\<close> is the value of an expression when every symbol
  has a real value; two expressions are the same polynomial when they have the same
  value under every assignment. \<open>x\<close> is the symbol of code point 120.
\<close>

datatype expr =
    Integer int
  | Symbol int
  | Add expr expr
  | Mul expr expr
  | Power expr int

fun eval :: "(int \<Rightarrow> real) \<Rightarrow> expr \<Rightarrow> real" where
  "eval env (Integer i) = of_int i"
| "eval env (Symbol s) = env s"
| "eval env (Add a b) = eval env a + eval env b"
| "eval env (Mul a b) = eval env a * eval env b"
| "eval env (Power a k) = power_int (eval env a) k"

definition Sub :: "expr \<Rightarrow> expr \<Rightarrow> expr" where
  "Sub a b = Add a (Mul (Integer (- 1)) b)"

definition x_symbol :: expr where
  "x_symbol = Symbol 120"

text \<open>
  \<^verbatim>\<open>symbols(chr(i))\<close>. \<^verbatim>\<open>sympy.symbols\<close> reads its argument as a list of names: it
  strips white space and splits at commas and colons, so a name that is a white-space
  character, a comma or a colon raises ValueError instead of giving a symbol.
\<close>

definition unicode_space :: "int \<Rightarrow> bool" where
  "unicode_space c \<longleftrightarrow>
     (9 \<le> c \<and> c \<le> 13) \<or> (28 \<le> c \<and> c \<le> 32) \<or> c = 133 \<or> c = 160 \<or> c = 5760
     \<or> (8192 \<le> c \<and> c \<le> 8202) \<or> c = 8232 \<or> c = 8233 \<or> c = 8239 \<or> c = 8287
     \<or> c = 12288"

definition symbols_chr :: "int \<Rightarrow> error + expr" where
  "symbols_chr i =
     bind_err (py_chr i)
       (\<lambda>c. if unicode_space c \<or> c = 44 \<or> c = 58 then Inl ValueError else Inr (Symbol c))"

text \<open>
  The inner loop over the end nodes of one start node. The statement
  \<^verbatim>\<open>expr = (recurexpr**recurlist[int(startnode)]) * expr\<close> stands inside this loop in
  the source, so it runs once for every end node.
\<close>

fun endnodes_loop ::
  "(int \<times> int list) list \<Rightarrow> expr \<Rightarrow> int list \<Rightarrow> int \<Rightarrow> int list \<Rightarrow> expr \<Rightarrow> error + expr" where
  "endnodes_loop edgedict recurexpr recurlist startnode [] expr = Inr expr"
| "endnodes_loop edgedict recurexpr recurlist startnode (node # rest) expr =
     (case (if map_of edgedict node \<noteq> None
            then bind_err (symbols_chr (node + 65)) (\<lambda>var. Inr (Add expr (Mul var x_symbol)))
            else Inr (Add expr x_symbol)) of
        Inl e \<Rightarrow> Inl e
      | Inr expr' \<Rightarrow>
          (case list_get recurlist startnode of
             Inl e \<Rightarrow> Inl e
           | Inr k \<Rightarrow>
               endnodes_loop edgedict recurexpr recurlist startnode rest
                 (Mul (Power recurexpr k) expr')))"

text \<open>The outer loop over \<^verbatim>\<open>edgedict.keys()\<close>, collecting \<open>system\<close> and \<open>symbs\<close>.\<close>

fun startnodes_loop ::
  "(int \<times> int list) list \<Rightarrow> expr \<Rightarrow> int list \<Rightarrow> (int \<times> int list) list \<Rightarrow>
   expr list \<Rightarrow> expr list \<Rightarrow> error + (expr list \<times> expr list)" where
  "startnodes_loop edgedict recurexpr recurlist [] system symbs = Inr (system, symbs)"
| "startnodes_loop edgedict recurexpr recurlist ((startnode, endnodes) # rest) system symbs =
     (case symbols_chr (startnode + 65) of
        Inl e \<Rightarrow> Inl e
      | Inr symb \<Rightarrow>
          (case endnodes_loop edgedict recurexpr recurlist startnode endnodes (Integer 0) of
             Inl e \<Rightarrow> Inl e
           | Inr expr \<Rightarrow>
               startnodes_loop edgedict recurexpr recurlist rest
                 (system @ [Sub expr symb]) (symbs @ [symb])))"

text \<open>
  The builder proper: everything \<open>calculateSystem\<close> does before it calls the solver.
  \<^verbatim>\<open>edgelist[0][0]\<close> raises IndexError on the empty edge list.
\<close>

definition build_system :: "edge list \<Rightarrow> int list \<Rightarrow> error + (expr list \<times> expr list)" where
  "build_system edgelist recurlist =
     (let edgedict = make_edgedict edgelist []
      in case edgelist of
           [] \<Rightarrow> Inl IndexError
         | edge # _ \<Rightarrow>
             bind_err (symbols_chr (fst edge + 65))
               (\<lambda>firstnode.
                  startnodes_loop edgedict (Mul firstnode x_symbol) recurlist edgedict [] []))"

text \<open>
  \<^verbatim>\<open>nonlinsolve\<close> is sympy's solver, not code of this repository: it is a parameter,
  giving the list \<^verbatim>\<open>solutions.args\<close> of solution tuples. \<^verbatim>\<open>ret += [i[0]]\<close> takes the
  first component of each tuple.
\<close>

fun first_components :: "expr list list \<Rightarrow> error + expr list" where
  "first_components [] = Inr []"
| "first_components (i # rest) =
     (case i of
        [] \<Rightarrow> Inl IndexError
      | e # _ \<Rightarrow> bind_err (first_components rest) (\<lambda>ret. Inr (e # ret)))"

definition sympycfg2_calculateSystem ::
  "(expr list \<Rightarrow> expr list \<Rightarrow> expr list list) \<Rightarrow> edge list \<Rightarrow> int list \<Rightarrow> error + expr list" where
  "sympycfg2_calculateSystem nonlinsolve edgelist recurlist =
     bind_err (build_system edgelist recurlist)
       (\<lambda>(system, symbs). first_components (nonlinsolve system symbs))"

subsection \<open>CFG2CFG.py: \<open>calculateSystem\<close>\<close>

text \<open>
  The same builder with the equations as strings. \<open>system\<close> is a dictionary from the
  one-character name of a node (its code point) to the right-hand side.
\<close>

fun equation_string :: "(int \<times> int list) list \<Rightarrow> int list \<Rightarrow> pystr \<Rightarrow> error + pystr" where
  "equation_string edgedict [] eq = Inr eq"
| "equation_string edgedict (node # rest) eq =
     (if map_of edgedict node \<noteq> None
      then (case py_chr (node + 65) of
              Inl e \<Rightarrow> Inl e
            | Inr c \<Rightarrow> equation_string edgedict rest (eq @ lit '' + '' @ [c] @ lit ''x''))
      else equation_string edgedict rest (eq @ lit '' + '' @ lit ''x''))"

fun plain_equations ::
  "(int \<times> int list) list \<Rightarrow> (int \<times> int list) list \<Rightarrow> (int \<times> pystr) list \<Rightarrow>
   error + (int \<times> pystr) list" where
  "plain_equations edgedict [] system = Inr system"
| "plain_equations edgedict ((startnode, endnodes) # rest) system =
     (case equation_string edgedict endnodes [] of
        Inl e \<Rightarrow> Inl e
      | Inr eq \<Rightarrow>
          (case py_chr (startnode + 65) of
             Inl e \<Rightarrow> Inl e
           | Inr c \<Rightarrow> plain_equations edgedict rest (dict_set c (drop 3 eq) system)))"

text \<open>
  The loop \<^verbatim>\<open>for i in range(len(recurlist))\<close>, over the pairs of an index and its entry:
  here the factor is put once around the whole right-hand side of the node.
\<close>

fun recursive_equations ::
  "pystr \<Rightarrow> (nat \<times> int) list \<Rightarrow> (int \<times> pystr) list \<Rightarrow> error + (int \<times> pystr) list" where
  "recursive_equations firstnode [] system = Inr system"
| "recursive_equations firstnode ((i, k) # rest) system =
     (if k > 0
      then (case py_chr (int i + 65) of
              Inl e \<Rightarrow> Inl e
            | Inr recurnode \<Rightarrow>
                (case map_of system recurnode of
                   None \<Rightarrow> Inl KeyError
                 | Some eq \<Rightarrow>
                     recursive_equations firstnode rest
                       (dict_set recurnode
                          (if k = 1 then firstnode @ lit ''x('' @ eq @ lit '')''
                           else firstnode @ lit ''^('' @ str_int k @ lit '')x^('' @ str_int k
                                  @ lit '')('' @ eq @ lit '')'')
                          system)))
      else recursive_equations firstnode rest system)"

definition CFG2CFG_calculateSystem :: "edge list \<Rightarrow> int list \<Rightarrow> error + (int \<times> pystr) list" where
  "CFG2CFG_calculateSystem edgelist recurlist =
     (let edgedict = make_edgedict edgelist []
      in bind_err (plain_equations edgedict edgedict [])
           (\<lambda>system.
              case edgelist of
                [] \<Rightarrow> Inl IndexError
              | edge # _ \<Rightarrow>
                  bind_err (py_chr (fst edge + 65))
                    (\<lambda>firstnode.
                       recursive_equations [firstnode]
                         (zip [0 ..< length recurlist] recurlist) system)))"

subsection \<open>The equation of the specification, and what a solver returns\<close>

text \<open>
  Following the specification's words, for comparison with the builders: the right-hand
  side of a node is the sum over its outgoing edges of \<open>symbol(t) * x\<close> when the target
  \<open>t\<close> has outgoing edges and of \<open>x\<close> when it is terminal, the whole multiplied once by
  \<open>(symbol(entry) * x) ^ k\<close>.
\<close>

definition spec_edge_term :: "(int \<times> int list) list \<Rightarrow> int \<Rightarrow> expr" where
  "spec_edge_term edgedict t =
     (if map_of edgedict t \<noteq> None then Mul (Symbol (t + 65)) x_symbol else x_symbol)"

definition spec_rhs :: "(int \<times> int list) list \<Rightarrow> int \<Rightarrow> int \<Rightarrow> int list \<Rightarrow> expr" where
  "spec_rhs edgedict entry k endnodes =
     Mul (Power (Mul (Symbol (entry + 65)) x_symbol) k)
         (foldl Add (Integer 0) (map (spec_edge_term edgedict) endnodes))"

text \<open>
  A tuple of closed forms, one for each symbol of \<open>symbs\<close>, satisfies the system when
  every equation has the value 0 once each symbol of \<open>symbs\<close> has the value of its
  closed form, whatever the values of the remaining symbols. Two tuples are the same
  solution when their components have the same values. A solver is exact on a system
  when the tuples it returns satisfy the system, every solution is among them, and none
  is returned twice.
\<close>

fun symbol_names :: "expr list \<Rightarrow> int list" where
  "symbol_names [] = []"
| "symbol_names (Symbol s # rest) = s # symbol_names rest"
| "symbol_names (_ # rest) = symbol_names rest"

definition substituted :: "(int \<Rightarrow> real) \<Rightarrow> expr list \<Rightarrow> expr list \<Rightarrow> int \<Rightarrow> real" where
  "substituted env symbs tuple s =
     (case map_of (zip (symbol_names symbs) tuple) s of
        Some e \<Rightarrow> eval env e
      | None \<Rightarrow> env s)"

definition satisfies :: "expr list \<Rightarrow> expr list \<Rightarrow> expr list \<Rightarrow> bool" where
  "satisfies system symbs tuple \<longleftrightarrow>
     length tuple = length symbs
     \<and> (\<forall>env. list_all (\<lambda>eq. eval (substituted env symbs tuple) eq = 0) system)"

definition same_solution :: "expr list \<Rightarrow> expr list \<Rightarrow> bool" where
  "same_solution t u \<longleftrightarrow> (\<forall>env. map (eval env) t = map (eval env) u)"

definition exact_solver ::
  "(expr list \<Rightarrow> expr list \<Rightarrow> expr list list) \<Rightarrow> expr list \<Rightarrow> expr list \<Rightarrow> bool" where
  "exact_solver nonlinsolve system symbs \<longleftrightarrow>
     list_all (satisfies system symbs) (nonlinsolve system symbs)
     \<and> (\<forall>t. satisfies system symbs t \<longrightarrow>
            list_ex (same_solution t) (nonlinsolve system symbs))
     \<and> (\<forall>i j. i < j \<and> j < length (nonlinsolve system symbs) \<longrightarrow>
            \<not> same_solution (nonlinsolve system symbs ! i) (nonlinsolve system symbs ! j))"

section \<open>command.py: the metrics scheduler\<close>

subsection \<open>Graphs, generators, results\<close>

text \<open>
  Modelled from the spec: the enumeration \<^verbatim>\<open>core.env.KnownExtensions\<close> is not among the
  source files; the scheduler only asks whether a graph's language is \<^verbatim>\<open>Python\<close>.
\<close>

datatype KnownExtensions = Python | OtherExtension string

text \<open>
  What the scheduler reads of a \<^verbatim>\<open>ControlFlowGraph\<close>: \<^verbatim>\<open>graph.name\<close> (which may be
  \<^verbatim>\<open>None\<close>), \<^verbatim>\<open>graph.metadata.language\<close> and \<^verbatim>\<open>graph.graph.vertices()\<close>.
\<close>

record ControlFlowGraph =
  name :: "string option"
  language :: KnownExtensions
  vertices :: "int list"

text \<open>
  A metric result is an integer or a pair (the path complexity result); the timeout
  sentinel \<^verbatim>\<open>("NA", "Timeout")\<close> is such a pair.
\<close>

datatype MetricRes = IntRes int | PairRes string string

text \<open>
  Modelled from the spec: \<^verbatim>\<open>utils.Timeout\<close> and the metric classes are not among the
  source files. A call of \<^verbatim>\<open>evaluate\<close> either finishes after some seconds, returning a
  result or raising, or never finishes; \<^verbatim>\<open>with Timeout(t, ...)\<close> around it raises
  TimeoutError when the call takes more than \<open>t\<close> seconds.
\<close>

datatype evaluation = Finishes nat "error + MetricRes" | Diverges

record MetricAbstract =
  metric_name :: string
  evaluate :: "ControlFlowGraph \<Rightarrow> evaluation"


fun with_Timeout :: "nat \<Rightarrow> evaluation \<Rightarrow> error + MetricRes" where
  "with_Timeout t Diverges = Inl TimeoutError"
| "with_Timeout t (Finishes s r) = (if t < s then Inl TimeoutError else r)"

subsection \<open>\<open>multiprocess_metrics\<close>: one worker of the pool\<close>

text \<open>
  The workers share the task queue (read under the lock), the result map and nothing
  else. A worker is about to take a task (\<open>Ready\<close>), holds the task it took, has left its
  loop because the queue was empty (\<open>Exited\<close>), or was ended by an exception that
  \<open>multiprocess_metrics\<close> does not catch (\<open>Crashed\<close>). \<open>evaluated\<close> records the calls of
  \<^verbatim>\<open>evaluate\<close> in the order in which they were made.
\<close>

type_synonym task = "ControlFlowGraph \<times> string"

datatype worker = Ready | Holding task | Exited | Crashed error

record pool =
  queue :: "task list"
  shared_dict :: "(string option \<times> string) \<rightharpoonup> MetricRes"
  workers :: "worker list"
  evaluated :: "task list"

definition timeout_of :: "MetricAbstract \<Rightarrow> nat" where
  "timeout_of metrics_generator =
     (if metric_name metrics_generator = ''Path Complexity'' then 1200 else 180)"

definition skipped :: "MetricAbstract \<Rightarrow> ControlFlowGraph \<Rightarrow> bool" where
  "skipped metrics_generator graph \<longleftrightarrow>
     metric_name metrics_generator = ''Lines of Code'' \<and> language graph \<noteq> Python"

text \<open>
  The body of the loop after the task was taken: the lookup of the generator (outside
  the \<^verbatim>\<open>try\<close>), the \<^verbatim>\<open>continue\<close> for lines of code on a graph that is not Python, the
  guarded call, the store, and the two \<^verbatim>\<open>except\<close> clauses. A ValueError for a graph
  without a name and any exception other than IndexError and TimeoutError leave the
  function.
\<close>

definition run_task :: "(string \<rightharpoonup> MetricAbstract) \<Rightarrow> nat \<Rightarrow> task \<Rightarrow> pool \<Rightarrow> pool" where
  "run_task metrics_generators i task s =
     (case metrics_generators (snd task) of
        None \<Rightarrow> s\<lparr>workers := (workers s)[i := Crashed KeyError]\<rparr>
      | Some metrics_generator \<Rightarrow>
          if skipped metrics_generator (fst task) then s\<lparr>workers := (workers s)[i := Ready]\<rparr>
          else
            (case with_Timeout (timeout_of metrics_generator)
                    (evaluate metrics_generator (fst task)) of
               Inr result \<Rightarrow>
                 (case name (fst task) of
                    None \<Rightarrow>
                      s\<lparr>workers := (workers s)[i := Crashed ValueError],
                        evaluated := evaluated s @ [task]\<rparr>
                  | Some graph_name \<Rightarrow>
                      s\<lparr>shared_dict :=
                          (shared_dict s)
                            ((Some graph_name, metric_name metrics_generator) \<mapsto> result),
                        workers := (workers s)[i := Ready],
                        evaluated := evaluated s @ [task]\<rparr>)
             | Inl err \<Rightarrow>
                 if err = IndexError then
                   s\<lparr>workers := (workers s)[i := Ready], evaluated := evaluated s @ [task]\<rparr>
                 else if err = TimeoutError then
                   s\<lparr>shared_dict :=
                       (shared_dict s)
                         ((name (fst task), metric_name metrics_generator)
                            \<mapsto> PairRes ''NA'' ''Timeout''),
                     workers := (workers s)[i := Ready],
                     evaluated := evaluated s @ [task]\<rparr>
                 else
                   s\<lparr>workers := (workers s)[i := Crashed err],
                     evaluated := evaluated s @ [task]\<rparr>))"

text \<open>
  One atomic step of worker \<open>i\<close>: under the lock, take the first task or leave the loop
  when the queue is empty; or run the task it holds. A worker that has left takes no
  step.
\<close>

definition multiprocess_metrics_step ::
  "(string \<rightharpoonup> MetricAbstract) \<Rightarrow> nat \<Rightarrow> pool \<Rightarrow> pool option" where
  "multiprocess_metrics_step metrics_generators i s =
     (if length (workers s) \<le> i then None
      else case workers s ! i of
             Ready \<Rightarrow>
               (case queue s of
                  [] \<Rightarrow> Some (s\<lparr>workers := (workers s)[i := Exited]\<rparr>)
                | task # rest \<Rightarrow>
                    Some (s\<lparr>queue := rest, workers := (workers s)[i := Holding task]\<rparr>))
           | Holding task \<Rightarrow> Some (run_task metrics_generators i task s)
           | Exited \<Rightarrow> None
           | Crashed err \<Rightarrow> None)"

text \<open>
  The pool runs its workers in some interleaving of their steps: a schedule names the
  worker that takes the next step. The run is over when every worker has left its loop.
\<close>

fun run_schedule :: "(string \<rightharpoonup> MetricAbstract) \<Rightarrow> nat list \<Rightarrow> pool \<Rightarrow> pool option" where
  "run_schedule metrics_generators [] s = Some s"
| "run_schedule metrics_generators (i # schedule) s =
     (case multiprocess_metrics_step metrics_generators i s of
        None \<Rightarrow> None
      | Some s' \<Rightarrow> run_schedule metrics_generators schedule s')"

fun has_left :: "worker \<Rightarrow> bool" where
  "has_left Exited = True"
| "has_left (Crashed err) = True"
| "has_left w = False"

definition finished :: "pool \<Rightarrow> bool" where
  "finished s \<longleftrightarrow> list_all has_left (workers s)"

subsection \<open>\<open>do_metrics_multithreaded\<close>: queueing the tasks\<close>

text \<open>
  \<^verbatim>\<open>sorted(cfgs, key=lambda cfg: len(cfg.graph.vertices()), reverse=True)\<close>: a stable
  sort; with \<^verbatim>\<open>reverse=True\<close> graphs with the same number of vertices keep their order.
\<close>

definition sorted_cfgs :: "ControlFlowGraph list \<Rightarrow> ControlFlowGraph list" where
  "sorted_cfgs cfgs = rev (sort_key (\<lambda>cfg. length (vertices cfg)) (rev cfgs))"

text \<open>
  \<^verbatim>\<open>cfg.name in methodList\<close>, where \<open>methodList\<close> holds the cleaned method names read from
  the CSV file of the experiment: a parameter.
\<close>

definition in_methodList :: "string list \<Rightarrow> ControlFlowGraph \<Rightarrow> bool" where
  "in_methodList methodList cfg \<longleftrightarrow>
     (case name cfg of None \<Rightarrow> False | Some n \<Rightarrow> n \<in> set methodList)"

text \<open>
  The queue: for each generator, last one first, the sorted graphs whose name is in
  \<open>methodList\<close>. The generators are looked up by name in \<open>generator_dict\<close>, where a later
  generator replaces an earlier one of the same name.
\<close>

definition task_queue ::
  "MetricAbstract list \<Rightarrow> ControlFlowGraph list \<Rightarrow> string list \<Rightarrow> task list" where
  "task_queue metrics_generators cfgs methodList =
     concat (map (\<lambda>metrics_generator.
                    map (\<lambda>cfg. (cfg, metric_name metrics_generator))
                      (filter (in_methodList methodList) (sorted_cfgs cfgs)))
               (rev metrics_generators))"

definition generator_dict :: "MetricAbstract list \<Rightarrow> string \<rightharpoonup> MetricAbstract" where
  "generator_dict metrics_generators =
     map_of (rev (map (\<lambda>generator. (metric_name generator, generator)) metrics_generators))"

definition initial_pool ::
  "nat \<Rightarrow> MetricAbstract list \<Rightarrow> ControlFlowGraph list \<Rightarrow> string list \<Rightarrow> pool" where
  "initial_pool pool_size metrics_generators cfgs methodList =
     \<lparr>queue = task_queue metrics_generators cfgs methodList,
      shared_dict = Map.empty,
      workers = replicate pool_size Ready,
      evaluated = []\<rparr>"

text \<open>
  A run of the pool with \<open>pool_size\<close> workers under a schedule; \<open>do_metrics_multithreaded\<close>
  fixes \<^verbatim>\<open>pool_size = 8\<close>.
\<close>

definition pool_run ::
  "nat \<Rightarrow> MetricAbstract list \<Rightarrow> ControlFlowGraph list \<Rightarrow> string list \<Rightarrow> nat list \<Rightarrow> pool option" where
  "pool_run pool_size metrics_generators cfgs methodList schedule =
     run_schedule (generator_dict metrics_generators) schedule
       (initial_pool pool_size metrics_generators cfgs methodList)"

definition do_metrics_multithreaded ::
  "MetricAbstract list \<Rightarrow> ControlFlowGraph list \<Rightarrow> string list \<Rightarrow> nat list \<Rightarrow> pool option" where
  "do_metrics_multithreaded metrics_generators cfgs methodList schedule =
     pool_run 8 metrics_generators cfgs methodList schedule"

subsection \<open>Notions used to state the properties of a run\<close>

text \<open>
  The tasks of one generator inside a list of tasks are in descending order of the
  number of vertices of their graphs.
\<close>

definition descending :: "string \<Rightarrow> task list \<Rightarrow> bool" where
  "descending generator_name tasks \<longleftrightarrow>
     sorted_wrt (\<lambda>a b. length (vertices (fst a)) \<ge> length (vertices (fst b)))
       (filter (\<lambda>task. snd task = generator_name) tasks)"

fun held :: "worker \<Rightarrow> task list" where
  "held (Holding task) = [task]"
| "held w = []"

text \<open>
  The key a task stores a value under, if it stores one: the result of a call that
  returns, or the sentinel of a call that exceeds its timeout. A task ends its worker
  when an exception leaves \<open>multiprocess_metrics\<close>.
\<close>

definition stored_key ::
  "(string \<rightharpoonup> MetricAbstract) \<Rightarrow> task \<Rightarrow> (string option \<times> string) option" where
  "stored_key metrics_generators task =
     (case metrics_generators (snd task) of
        None \<Rightarrow> None
      | Some metrics_generator \<Rightarrow>
          if skipped metrics_generator (fst task) then None
          else
            (case with_Timeout (timeout_of metrics_generator)
                    (evaluate metrics_generator (fst task)) of
               Inr result \<Rightarrow>
                 (case name (fst task) of
                    None \<Rightarrow> None
                  | Some graph_name \<Rightarrow> Some (Some graph_name, metric_name metrics_generator))
             | Inl err \<Rightarrow>
                 if err = TimeoutError
                 then Some (name (fst task), metric_name metrics_generator)
                 else None))"

definition ends_worker :: "(string \<rightharpoonup> MetricAbstract) \<Rightarrow> task \<Rightarrow> bool" where
  "ends_worker metrics_generators task \<longleftrightarrow>
     (case metrics_generators (snd task) of
        None \<Rightarrow> True
      | Some metrics_generator \<Rightarrow>
          \<not> skipped metrics_generator (fst task)
          \<and> (case with_Timeout (timeout_of metrics_generator)
                     (evaluate metrics_generator (fst task)) of
                Inr result \<Rightarrow> name (fst task) = None
              | Inl err \<Rightarrow> err \<noteq> IndexError \<and> err \<noteq> TimeoutError))"

text \<open>
  The tasks that are still to be run: those in the queue and those a worker holds. The
  keys that will have been stored when all of them have run without ending a worker.
\<close>

definition outstanding :: "pool \<Rightarrow> task set" where
  "outstanding s = set (queue s) \<union> set (concat (map held (workers s)))"

definition keys_of :: "(string \<rightharpoonup> MetricAbstract) \<Rightarrow> task set \<Rightarrow> (string option \<times> string) set" where
  "keys_of metrics_generators tasks = {k. \<exists>task \<in> tasks. stored_key metrics_generators task = Some k}"

definition steady :: "(string \<rightharpoonup> MetricAbstract) \<Rightarrow> (string option \<times> string) set \<Rightarrow> nat \<Rightarrow> pool \<Rightarrow> bool" where
  "steady metrics_generators keys pool_size s \<longleftrightarrow>
     dom (shared_dict s) \<union> keys_of metrics_generators (outstanding s) = keys
     \<and> length (workers s) = pool_size
     \<and> (\<forall>w \<in> set (workers s). w = Ready \<or> w = Exited \<or> held w \<noteq> [])
     \<and> (\<forall>task \<in> outstanding s. \<not> ends_worker metrics_generators task)
     \<and> (Exited \<in> set (workers s) \<longrightarrow> queue s = [])"







text \<open>
  The work left in a pool: two steps for every queued task (taking it and running it),
  one for a worker that is ready, two for a worker that holds a task.
\<close>

fun weight :: "worker \<Rightarrow> nat" where
  "weight Ready = 1"
| "weight (Holding task) = 2"
| "weight w = 0"

definition work :: "pool \<Rightarrow> nat" where
  "work s = 2 * length (queue s) + sum_list (map weight (workers s))"

subsection \<open>Example graphs and generators\<close>

text \<open>
  A Java graph with a given name and number of vertices; a generator that returns the
  number of vertices after one second; a path complexity generator that never finishes;
  generators whose \<^verbatim>\<open>evaluate\<close> raises IndexError, or numpy's LinAlgError.
\<close>

definition java_graph :: "string \<Rightarrow> nat \<Rightarrow> ControlFlowGraph" where
  "java_graph graph_name k =
     \<lparr>name = Some graph_name, language = OtherExtension ''.java'', vertices = map int [0 ..< k]\<rparr>"

definition counting_generator :: "string \<Rightarrow> MetricAbstract" where
  "counting_generator generator_name =
     \<lparr>metric_name = generator_name,
      evaluate = (\<lambda>graph. Finishes 1 (Inr (IntRes (int (length (vertices graph))))))\<rparr>"

definition endless_generator :: MetricAbstract where
  "endless_generator = \<lparr>metric_name = ''Path Complexity'', evaluate = (\<lambda>graph. Diverges)\<rparr>"

definition raising_generator :: "string \<Rightarrow> error \<Rightarrow> MetricAbstract" where
  "raising_generator generator_name err =
     \<lparr>metric_name = generator_name, evaluate = (\<lambda>graph. Finishes 1 (Inl err))\<rparr>"

section \<open>command.py: the feature vector of \<open>do_vector\<close>\<close>

text \<open>
  The strings here are those whose code points are below 256, one character each.
  \<^verbatim>\<open>s.split()\<close> cuts a string at runs of white space and drops empty pieces;
  \<^verbatim>\<open>s.replace(" ", "*")\<close> turns every blank into a star.
\<close>

definition is_space :: "char \<Rightarrow> bool" where
  "is_space c \<longleftrightarrow> of_char c \<in> {9, 10, 11, 12, 13, 28, 29, 30, 31, 32, 133, 160 :: nat}"

fun split_whitespace :: "string \<Rightarrow> string \<Rightarrow> string list" where
  "split_whitespace [] piece = (if piece = [] then [] else [piece])"
| "split_whitespace (c # cs) piece =
     (if is_space c
      then (if piece = [] then split_whitespace cs [] else piece # split_whitespace cs [])
      else split_whitespace cs (piece @ [c]))"

definition replace_blanks :: "string \<Rightarrow> string" where
  "replace_blanks s = map (\<lambda>c. if c = CHR '' '' then CHR ''*'' else c) s"

text \<open>
  The entries of the vector are integers, floats and strings; \<open>apclist\<close> ends as a list
  of entries or, when the split APC has an unexpected length, as the text of the error
  message. Python's \<^verbatim>\<open>float\<close> on a string is a parameter: the float read (of any
  type \<open>'f\<close> of floats, so that it may be infinite or not a number), or nothing where
  Python raises ValueError.
\<close>

datatype 'f entry = IntEntry int | FloatEntry 'f | StrEntry string

datatype 'f apclist = Entries "'f entry list" | Message string

text \<open>The loop over \<^verbatim>\<open>pc.split()\<close> of a linear APC: the last entry with one star wins.\<close>

fun linear_loop ::
  "(string \<Rightarrow> 'f option) \<Rightarrow> string list \<Rightarrow> 'f apclist \<Rightarrow> error + 'f apclist" where
  "linear_loop float [] apclist = Inr apclist"
| "linear_loop float (entry # rest) apclist =
     (if count_list entry CHR ''*'' = 1
      then (case float (hd (split_on CHR ''*'' entry)) of
              None \<Rightarrow> Inl ValueError
            | Some coefficient \<Rightarrow>
                linear_loop float rest
                  (Entries [IntEntry 1, IntEntry 0, IntEntry 0, IntEntry 0,
                            FloatEntry coefficient]))
      else linear_loop float rest apclist)"

text \<open>
  The loop \<^verbatim>\<open>for i in range(len(pcSplit) - 2)\<close> that looks for the three pieces of the
  APC inside the path complexity and keeps the piece before them (for \<open>i = 0\<close> that is
  \<^verbatim>\<open>pcSplit[-1]\<close>, the last piece). \<open>coeff\<close> is a local variable of \<open>do_vector\<close>: when
  nothing matches it keeps the value an earlier method left in it, and is unbound when
  there was none.
\<close>

fun coeff_loop :: "string list \<Rightarrow> string list \<Rightarrow> nat list \<Rightarrow> string option \<Rightarrow> string option" where
  "coeff_loop pcSplit apc [] coeff = coeff"
| "coeff_loop pcSplit apc (i # rest) coeff =
     (if take 3 (drop i pcSplit) = apc
      then coeff_loop pcSplit apc rest
             (Some (if i = 0 then last pcSplit else pcSplit ! (i - 1)))
      else coeff_loop pcSplit apc rest coeff)"

text \<open>
  The vector \<open>do_vector\<close> computes from the APC (as printed by \<^verbatim>\<open>str\<close>) and the path
  complexity of one method, given what the methods before it left in \<open>coeff\<close>; and what
  this method leaves in \<open>coeff\<close> for the next one.
\<close>

definition coeff_after :: "string option \<Rightarrow> string \<Rightarrow> string \<Rightarrow> string option" where
  "coeff_after coeff apc pc =
     (let apclist = split_on CHR ''*'' apc;
          pcSplit = split_on CHR ''*'' (replace_blanks pc)
      in if length apclist = 3
         then coeff_loop pcSplit apclist [0 ..< length pcSplit - 2] coeff
         else coeff)"

definition feature_vector ::
  "(string \<Rightarrow> 'f option) \<Rightarrow> string option \<Rightarrow> string \<Rightarrow> string \<Rightarrow> error + 'f apclist" where
  "feature_vector float coeff_before apc pc =
     (let apclist = split_on CHR ''*'' apc
      in if length apclist = 1 then
           (if hd apclist = ''n'' then
              linear_loop float (split_whitespace pc []) (Entries (map StrEntry apclist))
            else
              (case float (hd apclist) of
                 Some v \<Rightarrow>
                   Inr (Entries [IntEntry 0, IntEntry 0, IntEntry 0, FloatEntry v, IntEntry 0])
               | None \<Rightarrow>
                   Inr (Entries [IntEntry (- 1), IntEntry (- 1), IntEntry (- 1), IntEntry (- 1),
                                 IntEntry (- 1), StrEntry ''took too long to run''])))
         else if length apclist = 3 then
           (let pcSplit = split_on CHR ''*'' (replace_blanks pc);
                coeff = coeff_loop pcSplit apclist [0 ..< length pcSplit - 2] coeff_before
            in if hd apclist = ''n'' then
                 (case float (apclist ! 2) of
                    None \<Rightarrow> Inl ValueError
                  | Some power' \<Rightarrow>
                      (case coeff of
                         None \<Rightarrow> Inl UnboundLocalError
                       | Some c \<Rightarrow>
                           Inr (Entries [IntEntry 2, IntEntry 0, IntEntry 0, StrEntry c,
                                         FloatEntry power'])))
               else
                 (case float (hd apclist) of
                    None \<Rightarrow> Inl ValueError
                  | Some base \<Rightarrow>
                      (case coeff of
                         None \<Rightarrow> Inl UnboundLocalError
                       | Some c \<Rightarrow>
                           Inr (Entries [IntEntry 3, StrEntry c, FloatEntry base, IntEntry 0,
                                         IntEntry 0]))))
         else Inr (Message ''Split APC is not of an expected length''))"

section \<open>Weak compositions (\<open>recurlists\<close>)\<close>

lemma for_each_Inr:
  "(\<And>i. i \<in> set xs \<Longrightarrow> body i = Inr (g i)) \<Longrightarrow> for_each xs body = Inr (concat (map g xs))"
  by (induction xs) auto


lemma distinct_concat_map_Cons:
  "distinct js \<Longrightarrow> (\<And>i. i \<in> set js \<Longrightarrow> distinct (g i)) \<Longrightarrow>
   distinct (concat (map (\<lambda>i. map (\<lambda>entry. i # entry) (g i)) js))"
  by (induction js) (auto simp: distinct_map inj_on_def)

lemma compositions_one: "0 \<le> points \<Longrightarrow> compositions 1 points = {[points]}"
  unfolding compositions_def by (auto simp: length_Suc_conv)

lemma compositions_step:
  assumes "2 \<le> numloops" "0 \<le> points"
  shows "compositions numloops points =
         (\<Union>i \<in> {0..points}. (\<lambda>entry. i # entry) ` compositions (numloops - 1) (points - i))"
proof (intro set_eqI iffI)
  fix xs assume "xs \<in> compositions numloops points"
  then have len: "int (length xs) = numloops" and nn: "\<forall>x \<in> set xs. 0 \<le> x"
    and s: "sum_list xs = points" by (auto simp: compositions_def)
  from len assms obtain i ys where xs: "xs = i # ys" by (cases xs) auto
  have "0 \<le> sum_list ys" using nn xs by (auto intro: sum_list_nonneg)
  then have "i \<in> {0..points}" using nn s xs by auto
  moreover have "ys \<in> compositions (numloops - 1) (points - i)"
    using len nn s xs by (auto simp: compositions_def)
  ultimately show "xs \<in> (\<Union>i \<in> {0..points}. (\<lambda>entry. i # entry) ` compositions (numloops - 1) (points - i))"
    using xs by blast
next
  fix xs assume "xs \<in> (\<Union>i \<in> {0..points}. (\<lambda>entry. i # entry) ` compositions (numloops - 1) (points - i))"
  then show "xs \<in> compositions numloops points"
    by (auto simp: compositions_def)
qed

lemma recurlists_compositions_nat:
  "0 \<le> points \<Longrightarrow>
   \<exists>l. recurlists (int (Suc n)) points = Inr l \<and> distinct l \<and> set l = compositions (int (Suc n)) points"
proof (induction n arbitrary: points)
  case 0
  then show ?case by (simp add: recurlists.simps compositions_one)
next
  case (Suc n)
  define g where "g = (\<lambda>i. SOME l. recurlists (int (Suc n)) (points - i) = Inr l \<and> distinct l
                        \<and> set l = compositions (int (Suc n)) (points - i))"
  have g: "recurlists (int (Suc n)) (points - i) = Inr (g i) \<and> distinct (g i)
           \<and> set (g i) = compositions (int (Suc n)) (points - i)" if "i \<in> set [0..points]" for i
  proof -
    from that have "0 \<le> points - i" by simp
    from Suc.IH [OF this] show ?thesis unfolding g_def by (rule someI_ex)
  qed
  let ?body = "\<lambda>i. case recurlists (int (Suc (Suc n)) - 1) (points - i) of
                     Inl e \<Rightarrow> Inl e
                   | Inr sublist \<Rightarrow> Inr (map (\<lambda>entry. i # entry) sublist)"
  let ?l = "concat (map (\<lambda>i. map (\<lambda>entry. i # entry) (g i)) [0..points])"
  have "for_each [0..points] ?body = Inr ?l"
    by (rule for_each_Inr) (use g in simp)
  then have r: "recurlists (int (Suc (Suc n))) points = Inr ?l"
    by (subst recurlists.simps) simp
  have d: "distinct ?l"
    by (rule distinct_concat_map_Cons) (use g in auto)
  have "set ?l = (\<Union>i \<in> {0..points}. (\<lambda>entry. i # entry) ` compositions (int (Suc n)) (points - i))"
    using g by auto
  also have "\<dots> = compositions (int (Suc (Suc n))) points"
    using compositions_step [of "int (Suc (Suc n))" points] Suc.prems by simp
  finally show ?case using r d by blast
qed

text \<open>
  Claim C9. For \<open>numloops \<ge> 1\<close> and \<open>points \<ge> 0\<close>, \<open>recurlists\<close> returns (it does not
  raise), every returned list is a weak composition of \<open>points\<close> into \<open>numloops\<close> parts
  (length \<open>numloops\<close>, non-negative entries, sum \<open>points\<close>), and every such composition
  occurs exactly once in the returned list.
\<close>

theorem recurlists_weak_compositions:
  assumes "1 \<le> numloops" and "0 \<le> points"
  shows "\<exists>l. recurlists numloops points = Inr l \<and> distinct l \<and> set l = compositions numloops points"
proof -
  from assms(1) obtain n where "numloops = int (Suc n)"
    by (metis of_nat_Suc zle_iff_zadd)
  with recurlists_compositions_nat [OF assms(2)] show ?thesis by simp
qed

theorem recurlists_weak_compositions_witness:
  "recurlists 3 2 = Inr [[0, 0, 2], [0, 1, 1], [0, 2, 0], [1, 0, 1], [1, 1, 0], [2, 0, 0]]
   \<and> (\<exists>l. recurlists 3 2 = Inr l \<and> distinct l \<and> set l = compositions 3 2)"
  using recurlists_weak_compositions [of 3 2] by (simp add: recurlists.simps upto.simps)

section \<open>Lengths of the strings of \<open>getLang\<close>\<close>

text \<open>
  Claim C10 says that for a start string no longer than \<open>num\<close> every string returned by
  \<open>getLang\<close> has length at most \<open>num\<close>, so that the write \<^verbatim>\<open>returnlist[len(str)] += 1\<close>
  of \<open>recursion\<close> stays inside the list of length \<open>num + 1\<close>. The code returns a string
  without rule characters whatever its length: with \<open>num = 1\<close>, the single rule
  \<^verbatim>\<open>x -> abc\<close> and the start string \<^verbatim>\<open>x\<close> (of length 1), \<open>getLang\<close> returns the
  string \<^verbatim>\<open>abc\<close> of length 3, and \<open>recursion\<close> raises IndexError on the write at
  index 3 of a list of length 2 (for every nesting limit of at least two calls).
\<close>

theorem getLang_returns_overlong_string:
  "int (length ''x'') \<le> 1
   \<and> getLang (Suc (Suc depth)) 1 [''x'' \<mapsto> ''abc''] ''x'' = Inr [''abc'']
   \<and> recursion (Suc (Suc depth)) 1 [''x'' \<mapsto> ''abc''] ''x'' = Inl IndexError"
  by (simp add: recursion_def getNextStrings_def)

section \<open>The equation builders\<close>

lemmas builder_defs = build_system_def bind_err_def symbols_chr_def unicode_space_def py_chr_def
  list_get_def
  Sub_def x_symbol_def

lemma chain_system:
  "build_system [(0, 1), (1, 2)] [0, 0, 0] =
     Inr ([Sub (Mul (Power (Mul (Symbol 65) x_symbol) 0) (Add (Integer 0) (Mul (Symbol 66) x_symbol)))
               (Symbol 65),
           Sub (Mul (Power (Mul (Symbol 65) x_symbol) 0) (Add (Integer 0) x_symbol)) (Symbol 66)],
          [Symbol 65, Symbol 66])"
  by (simp add: builder_defs)

lemma chain_satisfies:
  "satisfies
     [Sub (Mul (Power (Mul (Symbol 65) x_symbol) 0) (Add (Integer 0) (Mul (Symbol 66) x_symbol)))
               (Symbol 65),
      Sub (Mul (Power (Mul (Symbol 65) x_symbol) 0) (Add (Integer 0) x_symbol)) (Symbol 66)]
     [Symbol 65, Symbol 66] t
   \<longleftrightarrow> (\<exists>a b. t = [a, b] \<and> (\<forall>env. eval env a = (env 120)\<^sup>2) \<and> (\<forall>env. eval env b = env 120))"
  (is "?L \<longleftrightarrow> ?R")
proof
  assume ?L
  then have len: "length t = 2"
    and eqs: "\<And>env. list_all (\<lambda>eq. eval (substituted env [Symbol 65, Symbol 66] t) eq = 0)
       [Sub (Mul (Power (Mul (Symbol 65) x_symbol) 0) (Add (Integer 0) (Mul (Symbol 66) x_symbol)))
               (Symbol 65),
      Sub (Mul (Power (Mul (Symbol 65) x_symbol) 0) (Add (Integer 0) x_symbol)) (Symbol 66)]"
    by (auto simp: satisfies_def)
  from len obtain a b where t: "t = [a, b]"
    by (metis (no_types, opaque_lifting) length_0_conv length_Suc_conv numeral_2_eq_2)
  have "eval env b = env 120 \<and> eval env a = (env 120)\<^sup>2" for env
    using eqs [of env] by (auto simp: t substituted_def Sub_def x_symbol_def power2_eq_square)
  then show ?R using t by blast
next
  assume ?R
  then show ?L
    by (auto simp: satisfies_def substituted_def Sub_def x_symbol_def power2_eq_square)
qed


text \<open>
  Claim C4. For the edge list \<open>[(0,1),(1,2)]\<close> with recursion multiplicity 0 at every
  node, builder and solver together return exactly one closed form for the entry symbol,
  and it is \<open>x\<^sup>2\<close>: the generating function of one path of length 2 and no other path.
  The solver is sympy's; all that is asked of it is that it is exact on the system the
  builder hands to it.
\<close>

theorem chain_closed_form:
  assumes solver: "exact_solver nonlinsolve system symbs"
    and built: "build_system [(0, 1), (1, 2)] [0, 0, 0] = Inr (system, symbs)"
  shows "\<exists>e. sympycfg2_calculateSystem nonlinsolve [(0, 1), (1, 2)] [0, 0, 0] = Inr [e]
             \<and> (\<forall>env. eval env e = (env 120)\<^sup>2)"
proof -
  let ?sols = "nonlinsolve system symbs"
  from built have sys: "system =
      [Sub (Mul (Power (Mul (Symbol 65) x_symbol) 0) (Add (Integer 0) (Mul (Symbol 66) x_symbol)))
           (Symbol 65),
       Sub (Mul (Power (Mul (Symbol 65) x_symbol) 0) (Add (Integer 0) x_symbol)) (Symbol 66)]"
    and symbs: "symbs = [Symbol 65, Symbol 66]"
    by (simp_all add: chain_system)
  have shape: "\<exists>a b. t = [a, b] \<and> (\<forall>env. eval env a = (env 120)\<^sup>2) \<and> (\<forall>env. eval env b = env 120)"
    if "t \<in> set ?sols" for t
    using solver that unfolding exact_solver_def list_all_iff sys symbs chain_satisfies by blast
  have "satisfies system symbs [Power x_symbol 2, x_symbol]"
    unfolding sys symbs chain_satisfies by (simp add: x_symbol_def)
  with solver have "list_ex (same_solution [Power x_symbol 2, x_symbol]) ?sols"
    unfolding exact_solver_def by blast
  then have nonempty: "?sols \<noteq> []" by auto
  have "\<not> 1 < length ?sols"
  proof
    assume long: "1 < length ?sols"
    then have "0 < length ?sols" by (rule less_trans [OF zero_less_one])
    with long have "?sols ! 0 \<in> set ?sols" "?sols ! 1 \<in> set ?sols"
      by (blast intro: nth_mem)+
    then have "same_solution (?sols ! 0) (?sols ! 1)"
      using shape [of "?sols ! 0"] shape [of "?sols ! 1"] by (auto simp: same_solution_def)
    moreover have "\<not> same_solution (?sols ! 0) (?sols ! 1)"
      using solver long unfolding exact_solver_def by (metis zero_less_one)
    ultimately show False by contradiction
  qed
  with nonempty obtain t where sols: "?sols = [t]"
    by (cases ?sols) (auto simp: not_less)
  with shape [of t] obtain a b where t: "t = [a, b]" and a: "\<forall>env. eval env a = (env 120)\<^sup>2"
    by auto
  have "sympycfg2_calculateSystem nonlinsolve [(0, 1), (1, 2)] [0, 0, 0] = Inr [a]"
    by (simp add: sympycfg2_calculateSystem_def built bind_err_def sols t)
  with a show ?thesis by blast
qed

theorem chain_closed_form_witness:
  "exact_solver (\<lambda>system symbs. [[Power x_symbol 2, x_symbol]])
     [Sub (Mul (Power (Mul (Symbol 65) x_symbol) 0) (Add (Integer 0) (Mul (Symbol 66) x_symbol)))
          (Symbol 65),
      Sub (Mul (Power (Mul (Symbol 65) x_symbol) 0) (Add (Integer 0) x_symbol)) (Symbol 66)]
     [Symbol 65, Symbol 66]
   \<and> sympycfg2_calculateSystem (\<lambda>system symbs. [[Power x_symbol 2, x_symbol]])
        [(0, 1), (1, 2)] [0, 0, 0] = Inr [Power x_symbol 2]
   \<and> (\<exists>e. sympycfg2_calculateSystem (\<lambda>system symbs. [[Power x_symbol 2, x_symbol]])
              [(0, 1), (1, 2)] [0, 0, 0] = Inr [e]
          \<and> (\<forall>env. eval env e = (env 120)\<^sup>2))"
proof -
  let ?solver = "\<lambda>system symbs :: expr list. [[Power x_symbol 2, x_symbol]]"
  let ?system = "[Sub (Mul (Power (Mul (Symbol 65) x_symbol) 0) (Add (Integer 0) (Mul (Symbol 66) x_symbol)))
          (Symbol 65),
      Sub (Mul (Power (Mul (Symbol 65) x_symbol) 0) (Add (Integer 0) x_symbol)) (Symbol 66)]"
  have exact: "exact_solver ?solver ?system [Symbol 65, Symbol 66]"
    unfolding exact_solver_def chain_satisfies
    by (auto simp: same_solution_def x_symbol_def)
  have run: "sympycfg2_calculateSystem ?solver [(0, 1), (1, 2)] [0, 0, 0] = Inr [Power x_symbol 2]"
    by (simp add: sympycfg2_calculateSystem_def chain_system bind_err_def)
  from exact run chain_closed_form [OF exact chain_system] show ?thesis by blast
qed

text \<open>
  Claim C6 says that the builder fails with the dedicated EmptyGraph error on an empty
  edge list. Neither builder has such an error: both fail there, for every recursion
  list (and every solver), with the IndexError of \<^verbatim>\<open>edgelist[0][0]\<close>.
\<close>

theorem empty_edgelist_raises_IndexError:
  "build_system [] recurlist = Inl IndexError
   \<and> sympycfg2_calculateSystem nonlinsolve [] recurlist = Inl IndexError
   \<and> CFG2CFG_calculateSystem [] recurlist = Inl IndexError"
  by (simp add: build_system_def sympycfg2_calculateSystem_def CFG2CFG_calculateSystem_def
      bind_err_def)

text \<open>
  The claim as stated fails already at the empty recursion list: the error raised is not
  EmptyGraph.
\<close>

theorem empty_edgelist_not_EmptyGraph:
  "sympycfg2_calculateSystem (\<lambda>system symbs. []) [] [] \<noteq> Inl EmptyGraph
   \<and> CFG2CFG_calculateSystem [] [] \<noteq> Inl EmptyGraph"
  by (simp add: build_system_def sympycfg2_calculateSystem_def CFG2CFG_calculateSystem_def
      bind_err_def)

text \<open>
  Claim C1 says that the right-hand side of a node with recursion multiplicity \<open>k > 0\<close>
  is the sum over its outgoing edges multiplied once, as a whole, by
  \<open>(symbol(entry) * x) ^ k\<close>. In sympycfg2.py the multiplication stands inside the loop
  over the end nodes. For the edge list \<open>[(0,1),(0,2)]\<close> and the recursion list
  \<open>[1,0,0]\<close> node 0 gets \<open>(A x) ((A x) (0 + x) + x)\<close>, which at \<open>A = 2\<close>, \<open>x = 1\<close> has the
  value 6, where the equation of the specification, \<open>(A x) (x + x)\<close>, has the value 4.
  CFG2CFG.py, on the same input, multiplies once: \<^verbatim>\<open>Ax(x + x)\<close>.
\<close>

theorem factor_applied_per_edge:
  "build_system [(0, 1), (0, 2)] [1, 0, 0] =
     Inr ([Sub (Mul (Power (Mul (Symbol 65) x_symbol) 1)
                  (Add (Mul (Power (Mul (Symbol 65) x_symbol) 1) (Add (Integer 0) x_symbol))
                       x_symbol))
               (Symbol 65)],
          [Symbol 65])
   \<and> eval (\<lambda>s. if s = 65 then 2 else 1)
        (Mul (Power (Mul (Symbol 65) x_symbol) 1)
           (Add (Mul (Power (Mul (Symbol 65) x_symbol) 1) (Add (Integer 0) x_symbol)) x_symbol)) = 6
   \<and> eval (\<lambda>s. if s = 65 then 2 else 1)
        (spec_rhs (make_edgedict [(0, 1), (0, 2)] []) 0 1 [1, 2]) = 4
   \<and> CFG2CFG_calculateSystem [(0, 1), (0, 2)] [1, 0, 0] = Inr [(65, lit ''Ax(x + x)'')]"
  by (simp add: builder_defs spec_rhs_def spec_edge_term_def CFG2CFG_calculateSystem_def lit_def
      upt_rec)

section \<open>The scheduler\<close>

subsection \<open>One worker runs the tasks in the order of the queue\<close>

lemma descending_remove:
  "descending n (xs @ task # ys) \<Longrightarrow> descending n (xs @ ys)"
  by (cases "snd task = n") (auto simp: descending_def sorted_wrt_append)

lemma descending_prefix: "descending n (xs @ ys) \<Longrightarrow> descending n xs"
  by (auto simp: descending_def sorted_wrt_append)

lemma single_worker_step:
  assumes step: "multiprocess_metrics_step metrics_generators i s = Some s'"
    and one: "length (workers s) = 1"
    and inv: "descending n (evaluated s @ held (workers s ! 0) @ queue s)"
  shows "length (workers s') = 1 \<and> descending n (evaluated s' @ held (workers s' ! 0) @ queue s')"
proof -
  from step one have i: "i = 0"
    by (auto simp: multiprocess_metrics_step_def split: if_splits)
  show ?thesis
  proof (cases "workers s ! 0")
    case Ready
    with step i one inv show ?thesis
      by (auto simp: multiprocess_metrics_step_def split: list.splits)
  next
    case (Holding task)
    with inv have with_task: "descending n ((evaluated s @ [task]) @ queue s)"
      and without: "descending n (evaluated s @ queue s)"
      by (auto dest: descending_remove)
    from step i one Holding have s': "s' = run_task metrics_generators 0 task s"
      by (simp add: multiprocess_metrics_step_def)
    from one with_task without show ?thesis unfolding s'
      by (auto simp: run_task_def split: option.splits sum.splits)
  next
    case Exited
    with step i one show ?thesis by (simp add: multiprocess_metrics_step_def)
  next
    case (Crashed err)
    with step i one show ?thesis by (simp add: multiprocess_metrics_step_def)
  qed
qed

lemma single_worker_run:
  "run_schedule metrics_generators schedule s = Some s' \<Longrightarrow> length (workers s) = 1 \<Longrightarrow>
   descending n (evaluated s @ held (workers s ! 0) @ queue s) \<Longrightarrow>
   descending n (evaluated s')"
proof (induction schedule arbitrary: s)
  case Nil
  then show ?case by (auto dest: descending_prefix)
next
  case (Cons i schedule)
  from Cons.prems(1) obtain s1 where step: "multiprocess_metrics_step metrics_generators i s = Some s1"
    and rest: "run_schedule metrics_generators schedule s1 = Some s'"
    by (auto split: option.splits)
  from single_worker_step [OF step Cons.prems(2,3)] Cons.IH [OF rest] show ?case by blast
qed

lemma filter_tasks_of_generator:
  "distinct (map metric_name gs) \<Longrightarrow>
   filter (\<lambda>task. snd task = n) (concat (map (\<lambda>g. map (\<lambda>cfg. (cfg, metric_name g)) l) gs))
     = (if n \<in> metric_name ` set gs then map (\<lambda>cfg. (cfg, n)) l else [])"
proof (induction gs)
  case Nil
  then show ?case by simp
next
  case (Cons g gs)
  have "filter (\<lambda>task. snd task = n) (map (\<lambda>cfg. (cfg, metric_name g)) l)
          = (if metric_name g = n then map (\<lambda>cfg. (cfg, n)) l else [])"
    by (induction l) auto
  with Cons show ?case by auto
qed

lemma sorted_cfgs_descending:
  "sorted_wrt (\<lambda>a b. length (vertices a) \<ge> length (vertices b)) (sorted_cfgs cfgs)"
proof -
  have "sorted (map (\<lambda>cfg. length (vertices cfg)) (sort_key (\<lambda>cfg. length (vertices cfg)) (rev cfgs)))"
    by (rule sorted_sort_key)
  then show ?thesis
    by (simp add: sorted_cfgs_def sorted_wrt_rev sorted_wrt_map)
qed

lemma task_queue_descending:
  assumes "distinct (map metric_name metrics_generators)"
  shows "descending n (task_queue metrics_generators cfgs methodList)"
proof -
  from assms have "distinct (map metric_name (rev metrics_generators))"
    by (simp add: rev_map [symmetric])
  note f = filter_tasks_of_generator [OF this]
  show ?thesis
    using sorted_wrt_filter [OF sorted_cfgs_descending, of "in_methodList methodList" cfgs]
    by (simp add: descending_def task_queue_def sorted_wrt_map f)
qed

subsection \<open>The keys stored by a run without an unhandled exception\<close>

lemma held_update:
  "i < length ws \<Longrightarrow>
   set (held (ws ! i)) \<union> set (concat (map held (ws[i := w])))
     = set (held w) \<union> set (concat (map held ws))"
proof (induction ws arbitrary: i)
  case Nil
  then show ?case by simp
next
  case (Cons a ws)
  then show ?case by (cases i) auto
qed

lemma run_task_steady:
  assumes "\<not> ends_worker metrics_generators task"
  shows "workers (run_task metrics_generators i task s) = (workers s)[i := Ready]"
    and "queue (run_task metrics_generators i task s) = queue s"
    and "dom (shared_dict (run_task metrics_generators i task s))
           = dom (shared_dict s) \<union> set_option (stored_key metrics_generators task)"
  using assms
  by (auto simp: run_task_def ends_worker_def stored_key_def split: option.splits sum.splits if_splits)

lemma keys_of_union: "keys_of g (A \<union> B) = keys_of g A \<union> keys_of g B"
  by (auto simp: keys_of_def)

lemma keys_of_single: "keys_of g {task} = set_option (stored_key g task)"
  by (auto simp: keys_of_def)

lemma keys_of_empty: "keys_of g {} = {}"
  by (simp add: keys_of_def)


lemma set_update_subset: "set (ws[i := w]) \<subseteq> insert w (set ws)"
  by (rule set_update_subset_insert)

lemma steady_step:
  assumes st: "steady g keys n s"
    and step: "multiprocess_metrics_step g i s = Some s'"
  shows "steady g keys n s'"
proof -
  from step have i: "i < length (workers s)"
    by (auto simp: multiprocess_metrics_step_def split: if_splits)
  from st have keys: "dom (shared_dict s) \<union> keys_of g (outstanding s) = keys"
    and len: "length (workers s) = n"
    and ws: "\<forall>w \<in> set (workers s). w = Ready \<or> w = Exited \<or> held w \<noteq> []"
    and ok: "\<forall>task \<in> outstanding s. \<not> ends_worker g task"
    and ex: "Exited \<in> set (workers s) \<longrightarrow> queue s = []"
    by (auto simp: steady_def)
  note hu = held_update [OF i]
  show ?thesis
  proof (cases "workers s ! i")
    case Ready
    show ?thesis
    proof (cases "queue s")
      case Nil
      with step i Ready have s': "s' = s\<lparr>workers := (workers s)[i := Exited]\<rparr>"
        by (simp add: multiprocess_metrics_step_def)
      have "outstanding s' = outstanding s"
        using hu [of Exited] Ready by (simp add: s' outstanding_def)
      moreover have "set (workers s') \<subseteq> insert Exited (set (workers s))"
        unfolding s' by (simp add: set_update_subset)
      ultimately show ?thesis
        using keys len ws ok Nil unfolding steady_def by (auto simp: s')
    next
      case (Cons task rest)
      with step i Ready have s': "s' = s\<lparr>queue := rest, workers := (workers s)[i := Holding task]\<rparr>"
        by (simp add: multiprocess_metrics_step_def)
      have "outstanding s' = outstanding s"
        using hu [of "Holding task"] Ready Cons by (auto simp: s' outstanding_def)
      moreover have sub: "set (workers s') \<subseteq> insert (Holding task) (set (workers s))"
        unfolding s' by (simp add: set_update_subset)
      moreover have "Exited \<notin> set (workers s')"
        using sub ex Cons by auto
      ultimately show ?thesis
        using keys len ws ok unfolding steady_def by (auto simp: s')
    qed
  next
    case (Holding task)
    with step i have s': "s' = run_task g i task s"
      by (simp add: multiprocess_metrics_step_def)
    from Holding i have "task \<in> outstanding s"
      using nth_mem [OF i] by (force simp: outstanding_def)
    with ok have fine: "\<not> ends_worker g task" by blast
    note rt = run_task_steady [OF fine, of i s]
    have out: "insert task (outstanding s') = outstanding s"
      using hu [of Ready] Holding by (auto simp: s' rt outstanding_def)
    have "dom (shared_dict s') \<union> keys_of g (outstanding s')
            = dom (shared_dict s) \<union> keys_of g (insert task (outstanding s'))"
      using keys_of_union [of g "{task}" "outstanding s'"]
      by (auto simp: s' rt keys_of_single)
    with out keys have a: "dom (shared_dict s') \<union> keys_of g (outstanding s') = keys" by simp
    have sub: "set (workers s') \<subseteq> insert Ready (set (workers s))"
      unfolding s' rt by (simp add: set_update_subset)
    have "outstanding s' \<subseteq> outstanding s" using out by auto
    with a sub show ?thesis
      using len ws ok ex unfolding steady_def by (auto simp: s' rt)
  next
    case Exited
    with step i show ?thesis by (simp add: multiprocess_metrics_step_def)
  next
    case (Crashed err)
    with step i show ?thesis by (simp add: multiprocess_metrics_step_def)
  qed
qed

lemma steady_run:
  "run_schedule g schedule s = Some s' \<Longrightarrow> steady g keys n s \<Longrightarrow> steady g keys n s'"
proof (induction schedule arbitrary: s)
  case Nil
  then show ?case by simp
next
  case (Cons i schedule)
  from Cons.prems(1) obtain s1 where step: "multiprocess_metrics_step g i s = Some s1"
    and rest: "run_schedule g schedule s1 = Some s'"
    by (auto split: option.splits)
  from steady_step [OF Cons.prems(2) step] Cons.IH [OF rest] show ?case by blast
qed

lemma steady_finished:
  assumes "steady g keys n s" and "finished s" and "0 < n"
  shows "dom (shared_dict s) = keys"
proof -
  from assms(1) have keys: "dom (shared_dict s) \<union> keys_of g (outstanding s) = keys"
    and len: "length (workers s) = n"
    and ws: "\<forall>w \<in> set (workers s). w = Ready \<or> w = Exited \<or> held w \<noteq> []"
    and ex: "Exited \<in> set (workers s) \<longrightarrow> queue s = []"
    by (auto simp: steady_def)
  have all: "w = Exited" if "w \<in> set (workers s)" for w
  proof -
    from that ws have "w = Ready \<or> w = Exited \<or> held w \<noteq> []" by blast
    moreover from that assms(2) have "has_left w" by (simp add: finished_def list_all_iff)
    ultimately show ?thesis by - (cases w, auto)
  qed
  from len assms(3) have "workers s ! 0 \<in> set (workers s)" by simp
  with all have "Exited \<in> set (workers s)" by metis
  with ex have "queue s = []" by simp
  moreover have "held w = []" if "w \<in> set (workers s)" for w
    using all [OF that] by simp
  then have "set (concat (map held (workers s))) = {}" by simp
  ultimately have "outstanding s = {}" by (simp add: outstanding_def)
  with keys show ?thesis by (simp add: keys_of_empty)
qed

subsection \<open>Every run comes to an end\<close>

text \<open>
  Each step of a worker uses up some of the work that is left, so no schedule is longer
  than the work of the pool it starts from, and from every pool some schedule leads to
  a pool in which all workers have left their loop.
\<close>

lemma weight_update:
  "i < length ws \<Longrightarrow>
   sum_list (map weight (ws[i := w])) + weight (ws ! i) = sum_list (map weight ws) + weight w"
proof (induction ws arbitrary: i)
  case Nil
  then show ?case by simp
next
  case (Cons a ws)
  then show ?case by (cases i) auto
qed

lemma run_task_shape:
  "\<exists>w. weight w \<le> 1 \<and> workers (run_task g i task s) = (workers s)[i := w]
       \<and> queue (run_task g i task s) = queue s"
proof -
  have "weight Ready \<le> 1" "weight (Crashed e) \<le> 1" for e by simp_all
  then show ?thesis
    unfolding run_task_def
    by (auto split: option.splits sum.splits intro: exI [of _ Ready] exI [of _ "Crashed e" for e])
qed

lemma step_decreases:
  assumes "multiprocess_metrics_step g i s = Some s'"
  shows "work s' < work s"
proof -
  from assms have i: "i < length (workers s)"
    by (auto simp: multiprocess_metrics_step_def split: if_splits)
  note wu = weight_update [OF i]
  show ?thesis
  proof (cases "workers s ! i")
    case Ready
    with assms i wu [of Exited] wu [of "Holding t" for t] show ?thesis
      by (auto simp: multiprocess_metrics_step_def work_def split: list.splits)
  next
    case (Holding task)
    with assms i have s': "s' = run_task g i task s"
      by (simp add: multiprocess_metrics_step_def)
    from run_task_shape [of g i task s] obtain w where "weight w \<le> 1"
      "workers s' = (workers s)[i := w]" "queue s' = queue s"
      unfolding s' by blast
    with wu [of w] Holding show ?thesis by (simp add: work_def)
  next
    case Exited
    with assms i show ?thesis by (simp add: multiprocess_metrics_step_def)
  next
    case (Crashed err)
    with assms i show ?thesis by (simp add: multiprocess_metrics_step_def)
  qed
qed

lemma unfinished_can_step:
  assumes "\<not> finished s"
  shows "\<exists>i s'. multiprocess_metrics_step g i s = Some s'"
proof -
  from assms obtain i where i: "i < length (workers s)" and w: "\<not> has_left (workers s ! i)"
    by (auto simp: finished_def list_all_length)
  have "\<exists>s'. multiprocess_metrics_step g i s = Some s'"
  proof (cases "workers s ! i")
    case Ready
    with i show ?thesis
      by (cases "queue s") (simp_all add: multiprocess_metrics_step_def)
  next
    case (Holding task)
    with i show ?thesis by (simp add: multiprocess_metrics_step_def)
  next
    case Exited
    with w show ?thesis by simp
  next
    case (Crashed err)
    with w show ?thesis by simp
  qed
  then show ?thesis by blast
qed

lemma run_can_finish: "\<exists>schedule s'. run_schedule g schedule s = Some s' \<and> finished s'"
proof (induction s rule: measure_induct_rule [of work])
  case (less s)
  show ?case
  proof (cases "finished s")
    case True
    then have "run_schedule g [] s = Some s \<and> finished s" by simp
    then show ?thesis by blast
  next
    case False
    from unfinished_can_step [OF this] obtain i s1
      where step: "multiprocess_metrics_step g i s = Some s1" by blast
    from less [OF step_decreases [OF step]] obtain schedule s'
      where "run_schedule g schedule s1 = Some s'" "finished s'" by blast
    with step have "run_schedule g (i # schedule) s = Some s' \<and> finished s'" by simp
    then show ?thesis by blast
  qed
qed

lemma schedule_bounded:
  "run_schedule g schedule s = Some s' \<Longrightarrow> length schedule + work s' \<le> work s"
proof (induction schedule arbitrary: s)
  case Nil
  then show ?case by simp
next
  case (Cons i schedule)
  from Cons.prems obtain s1 where step: "multiprocess_metrics_step g i s = Some s1"
    and rest: "run_schedule g schedule s1 = Some s'"
    by (auto split: option.splits)
  from Cons.IH [OF rest] step_decreases [OF step] show ?case by simp
qed

lemmas run_defs = pool_run_def initial_pool_def task_queue_def sorted_cfgs_def in_methodList_def
  generator_dict_def multiprocess_metrics_step_def run_task_def skipped_def timeout_of_def
  java_graph_def counting_generator_def endless_generator_def raising_generator_def
  finished_def

subsection \<open>Order of execution with one worker\<close>

text \<open>
  Claim C8. With a pool of one worker (and generators of distinct names), at every
  moment of the run the calls of \<^verbatim>\<open>evaluate\<close> made so far for any one generator are in
  descending order of the number of vertices of their graphs. The witness is the run
  for graphs of 5, 50 and 1 vertices, whose tasks run in the order 50, 5, 1.
\<close>

theorem single_worker_descending_order:
  assumes "distinct (map metric_name metrics_generators)"
    and "pool_run 1 metrics_generators cfgs methodList schedule = Some s"
  shows "descending generator_name (evaluated s)"
proof -
  let ?s0 = "initial_pool 1 metrics_generators cfgs methodList"
  have "descending generator_name (evaluated ?s0 @ held (workers ?s0 ! 0) @ queue ?s0)"
    using task_queue_descending [OF assms(1)] by (simp add: initial_pool_def)
  moreover have "length (workers ?s0) = 1" by (simp add: initial_pool_def)
  ultimately show ?thesis
    using assms(2) single_worker_run unfolding pool_run_def by blast
qed

theorem single_worker_descending_order_witness:
  "\<exists>s. pool_run 1 [counting_generator ''NPath'']
          [java_graph ''five'' 5, java_graph ''fifty'' 50, java_graph ''one'' 1]
          [''five'', ''fifty'', ''one''] [0, 0, 0, 0, 0, 0, 0] = Some s
       \<and> finished s
       \<and> map (\<lambda>task. length (vertices (fst task))) (evaluated s) = [50, 5, 1]
       \<and> descending ''NPath'' (evaluated s)"
proof -
  let ?run = "pool_run 1 [counting_generator ''NPath'']
          [java_graph ''five'' 5, java_graph ''fifty'' 50, java_graph ''one'' 1]
          [''five'', ''fifty'', ''one''] [0, 0, 0, 0, 0, 0, 0]"
  have "\<exists>s. ?run = Some s \<and> finished s
           \<and> map (\<lambda>task. length (vertices (fst task))) (evaluated s) = [50, 5, 1]"
    by (simp add: run_defs)
  then obtain s where "?run = Some s \<and> finished s
      \<and> map (\<lambda>task. length (vertices (fst task))) (evaluated s) = [50, 5, 1]" ..
  then have s: "?run = Some s" "finished s"
      "map (\<lambda>task. length (vertices (fst task))) (evaluated s) = [50, 5, 1]"
    by (rule conjunct1, rule conjunct2 [THEN conjunct1], rule conjunct2 [THEN conjunct2])
  have "distinct (map metric_name [counting_generator ''NPath''])" by simp
  from single_worker_descending_order [OF this s(1)]
  have "descending ''NPath'' (evaluated s)" .
  with s show ?thesis by (intro exI [of _ s] conjI)
qed


subsection \<open>A task whose evaluation raises\<close>

text \<open>
  Claim C5 says that an evaluation error becomes a sentinel stored under the key of the
  task. The one evaluation error \<open>multiprocess_metrics\<close> handles is IndexError, and it
  stores nothing for it: the step of the worker changes only the worker, which is ready
  again, and the record of calls; its next step takes the next task of the queue, or
  leaves the loop when the queue is empty.
\<close>

theorem IndexError_caught_nothing_stored:
  assumes "i < length (workers s)"
    and "workers s ! i = Holding (graph, generator_name)"
    and "metrics_generators generator_name = Some metrics_generator"
    and "\<not> skipped metrics_generator graph"
    and "with_Timeout (timeout_of metrics_generator) (evaluate metrics_generator graph)
           = Inl IndexError"
  shows "\<exists>s'. multiprocess_metrics_step metrics_generators i s = Some s'
           \<and> s' = s\<lparr>workers := (workers s)[i := Ready],
                     evaluated := evaluated s @ [(graph, generator_name)]\<rparr>
           \<and> multiprocess_metrics_step metrics_generators i s' =
               Some (case queue s of
                       [] \<Rightarrow> s'\<lparr>workers := (workers s')[i := Exited]\<rparr>
                     | task # rest \<Rightarrow>
                         s'\<lparr>queue := rest, workers := (workers s')[i := Holding task]\<rparr>)"
  using assms by (simp add: multiprocess_metrics_step_def run_task_def split: list.splits)

theorem IndexError_caught_nothing_stored_witness:
  "with_Timeout (timeout_of (raising_generator ''NPath'' IndexError))
       (evaluate (raising_generator ''NPath'' IndexError) (java_graph ''one'' 1)) = Inl IndexError
   \<and> (\<exists>s'. multiprocess_metrics_step (generator_dict [raising_generator ''NPath'' IndexError]) 0
              \<lparr>queue = [(java_graph ''five'' 5, ''NPath'')], shared_dict = Map.empty,
               workers = [Holding (java_graph ''one'' 1, ''NPath'')], evaluated = []\<rparr>
            = Some s'
          \<and> shared_dict s' = Map.empty
          \<and> queue s' = [(java_graph ''five'' 5, ''NPath'')]
          \<and> workers s' = [Ready]
          \<and> multiprocess_metrics_step (generator_dict [raising_generator ''NPath'' IndexError]) 0 s' =
              Some (s'\<lparr>queue := [], workers := [Holding (java_graph ''five'' 5, ''NPath'')]\<rparr>))"
proof -
  let ?g = "raising_generator ''NPath'' IndexError"
  let ?s = "\<lparr>queue = [(java_graph ''five'' 5, ''NPath'')], shared_dict = Map.empty,
             workers = [Holding (java_graph ''one'' 1, ''NPath'')], evaluated = []\<rparr>"
  have e: "with_Timeout (timeout_of ?g) (evaluate ?g (java_graph ''one'' 1)) = Inl IndexError"
    by (simp add: raising_generator_def timeout_of_def)
  have "0 < length (workers ?s)" by simp
  moreover have "workers ?s ! 0 = Holding (java_graph ''one'' 1, ''NPath'')" by simp
  moreover have "generator_dict [?g] ''NPath'' = Some ?g"
    by (simp add: generator_dict_def raising_generator_def)
  moreover have "\<not> skipped ?g (java_graph ''one'' 1)"
    by (simp add: skipped_def raising_generator_def)
  ultimately show ?thesis
    using IndexError_caught_nothing_stored [of 0 ?s "java_graph ''one'' 1" "''NPath''"
        "generator_dict [?g]" ?g, OF _ _ _ _ e] e
    by (simp add: java_graph_def raising_generator_def)
qed

text \<open>
  The claim as stated fails for a worker that holds a task whose evaluation raises
  IndexError: after its step the map has no entry under the key of the task.
\<close>

theorem IndexError_leaves_no_sentinel:
  "\<exists>s'. multiprocess_metrics_step (generator_dict [raising_generator ''NPath'' IndexError]) 0
            \<lparr>queue = [], shared_dict = Map.empty,
             workers = [Holding (java_graph ''one'' 1, ''NPath'')], evaluated = []\<rparr>
          = Some s'
        \<and> evaluated s' = [(java_graph ''one'' 1, ''NPath'')]
        \<and> shared_dict s' (name (java_graph ''one'' 1), ''NPath'') = None"
  by (simp add: run_defs)


subsection \<open>The keys of the result map after a run\<close>

lemma set_task_queue:
  "set (task_queue metrics_generators cfgs methodList)
     = {(cfg, metric_name g) | cfg g.
          cfg \<in> set cfgs \<and> g \<in> set metrics_generators \<and> in_methodList methodList cfg}"
  by (auto simp: task_queue_def sorted_cfgs_def)

lemma generator_dict_distinct:
  assumes "distinct (map metric_name metrics_generators)" and "g \<in> set metrics_generators"
  shows "generator_dict metrics_generators (metric_name g) = Some g"
proof -
  let ?pairs = "rev (map (\<lambda>generator. (metric_name generator, generator)) metrics_generators)"
  from assms(1) have "distinct (map fst ?pairs)"
    by (simp add: rev_map [symmetric] comp_def)
  moreover from assms(2) have "(metric_name g, g) \<in> set ?pairs" by auto
  ultimately show ?thesis
    unfolding generator_dict_def by (simp only: map_of_eq_Some_iff)
qed

lemma initial_pool_steady:
  assumes "\<forall>task \<in> set (task_queue metrics_generators cfgs methodList). \<not> ends_worker g task"
  shows "steady g (keys_of g (set (task_queue metrics_generators cfgs methodList))) pool_size
           (initial_pool pool_size metrics_generators cfgs methodList)"
proof -
  have "concat (map held (replicate pool_size Ready)) = []"
    by (induction pool_size) auto
  with assms show ?thesis
    by (auto simp: steady_def initial_pool_def outstanding_def)
qed

text \<open>
  Claim C2, amended. For every pool size of at least one, generators of distinct names
  and every interleaving of the workers: when the run is over and no task ended its
  worker with an exception that \<open>multiprocess_metrics\<close> does not handle, the keys of the
  shared result map are exactly the pairs \<^verbatim>\<open>(graph.name, generator.name())\<close> of the
  graphs whose name is in the method list and the generators that are not skipped for
  the graph and whose evaluation did not raise IndexError.
\<close>

theorem completed_run_keys:
  assumes size: "0 < pool_size"
    and names: "distinct (map metric_name metrics_generators)"
    and run: "pool_run pool_size metrics_generators cfgs methodList schedule = Some s"
    and fin: "finished s"
    and handled: "\<forall>cfg \<in> set cfgs. \<forall>g \<in> set metrics_generators.
                    in_methodList methodList cfg \<longrightarrow>
                    \<not> ends_worker (generator_dict metrics_generators) (cfg, metric_name g)"
  shows "dom (shared_dict s) =
           {(name cfg, metric_name g) | cfg g.
              cfg \<in> set cfgs \<and> g \<in> set metrics_generators \<and> in_methodList methodList cfg
              \<and> \<not> skipped g cfg
              \<and> with_Timeout (timeout_of g) (evaluate g cfg) \<noteq> Inl IndexError}"
proof -
  let ?dict = "generator_dict metrics_generators"
  let ?queue = "task_queue metrics_generators cfgs methodList"
  from handled have "\<forall>task \<in> set ?queue. \<not> ends_worker ?dict task"
    by (auto simp: set_task_queue)
  from initial_pool_steady [OF this]
  have "steady ?dict (keys_of ?dict (set ?queue)) pool_size
          (initial_pool pool_size metrics_generators cfgs methodList)" .
  with run have "steady ?dict (keys_of ?dict (set ?queue)) pool_size s"
    unfolding pool_run_def by (rule steady_run)
  from steady_finished [OF this fin size]
  have dom: "dom (shared_dict s) = keys_of ?dict (set ?queue)" .
  have key: "stored_key ?dict (cfg, metric_name g) =
               (if \<not> skipped g cfg \<and> with_Timeout (timeout_of g) (evaluate g cfg) \<noteq> Inl IndexError
                then Some (name cfg, metric_name g) else None)"
    if "cfg \<in> set cfgs" "g \<in> set metrics_generators" "in_methodList methodList cfg" for cfg g
  proof -
    from that handled have "\<not> ends_worker ?dict (cfg, metric_name g)" by blast
    then show ?thesis
      using generator_dict_distinct [OF names that(2)]
      by (auto simp: stored_key_def ends_worker_def split: sum.splits option.splits)
  qed
  show ?thesis
    unfolding dom
  proof (intro set_eqI iffI)
    fix k
    assume "k \<in> keys_of ?dict (set ?queue)"
    then obtain cfg g where in_queue: "cfg \<in> set cfgs" "g \<in> set metrics_generators"
        "in_methodList methodList cfg"
      and stored: "stored_key ?dict (cfg, metric_name g) = Some k"
      by (auto simp: keys_of_def set_task_queue)
    from stored key [OF in_queue]
    have "k = (name cfg, metric_name g) \<and> \<not> skipped g cfg
            \<and> with_Timeout (timeout_of g) (evaluate g cfg) \<noteq> Inl IndexError"
      by (auto split: if_splits)
    with in_queue
    show "k \<in> {(name cfg, metric_name g) | cfg g.
              cfg \<in> set cfgs \<and> g \<in> set metrics_generators \<and> in_methodList methodList cfg
              \<and> \<not> skipped g cfg
              \<and> with_Timeout (timeout_of g) (evaluate g cfg) \<noteq> Inl IndexError}"
      by blast
  next
    fix k
    assume "k \<in> {(name cfg, metric_name g) | cfg g.
              cfg \<in> set cfgs \<and> g \<in> set metrics_generators \<and> in_methodList methodList cfg
              \<and> \<not> skipped g cfg
              \<and> with_Timeout (timeout_of g) (evaluate g cfg) \<noteq> Inl IndexError}"
    then obtain cfg g where k: "k = (name cfg, metric_name g)"
      and in_queue: "cfg \<in> set cfgs" "g \<in> set metrics_generators"
        "in_methodList methodList cfg"
      and runs: "\<not> skipped g cfg"
        "with_Timeout (timeout_of g) (evaluate g cfg) \<noteq> Inl IndexError"
      by blast
    from key [OF in_queue] runs k have "stored_key ?dict (cfg, metric_name g) = Some k"
      by simp
    moreover from in_queue have "(cfg, metric_name g) \<in> set ?queue"
      unfolding set_task_queue by blast
    ultimately show "k \<in> keys_of ?dict (set ?queue)"
      unfolding keys_of_def by blast
  qed
qed


theorem completed_run_keys_witness:
  "\<exists>s. pool_run 2
          [counting_generator ''NPath'', endless_generator, raising_generator ''Cyclomatic'' IndexError]
          [java_graph ''five'' 5, java_graph ''fifty'' 50, java_graph ''one'' 1]
          [''one'', ''fifty''] [0, 1, 0, 1, 0, 1, 0, 1, 0, 1, 0, 1, 0, 1] = Some s
       \<and> finished s
       \<and> shared_dict s (Some ''fifty'', ''NPath'') = Some (IntRes 50)
       \<and> shared_dict s (Some ''one'', ''Path Complexity'') = Some (PairRes ''NA'' ''Timeout'')
       \<and> shared_dict s (Some ''one'', ''Cyclomatic'') = None
       \<and> shared_dict s (Some ''five'', ''NPath'') = None
       \<and> dom (shared_dict s) =
           {(name cfg, metric_name g) | cfg g.
              cfg \<in> set [java_graph ''five'' 5, java_graph ''fifty'' 50, java_graph ''one'' 1]
              \<and> g \<in> set [counting_generator ''NPath'', endless_generator,
                          raising_generator ''Cyclomatic'' IndexError]
              \<and> in_methodList [''one'', ''fifty''] cfg
              \<and> \<not> skipped g cfg
              \<and> with_Timeout (timeout_of g) (evaluate g cfg) \<noteq> Inl IndexError}"
proof -
  let ?gens = "[counting_generator ''NPath'', endless_generator,
                raising_generator ''Cyclomatic'' IndexError]"
  let ?cfgs = "[java_graph ''five'' 5, java_graph ''fifty'' 50, java_graph ''one'' 1]"
  let ?run = "pool_run 2 ?gens ?cfgs [''one'', ''fifty''] [0, 1, 0, 1, 0, 1, 0, 1, 0, 1, 0, 1, 0, 1]"
  have "\<exists>s. ?run = Some s \<and> finished s
       \<and> shared_dict s (Some ''fifty'', ''NPath'') = Some (IntRes 50)
       \<and> shared_dict s (Some ''one'', ''Path Complexity'') = Some (PairRes ''NA'' ''Timeout'')
       \<and> shared_dict s (Some ''one'', ''Cyclomatic'') = None
       \<and> shared_dict s (Some ''five'', ''NPath'') = None"
    by (simp add: run_defs numeral_2_eq_2)
  then obtain s where s: "?run = Some s \<and> finished s
       \<and> shared_dict s (Some ''fifty'', ''NPath'') = Some (IntRes 50)
       \<and> shared_dict s (Some ''one'', ''Path Complexity'') = Some (PairRes ''NA'' ''Timeout'')
       \<and> shared_dict s (Some ''one'', ''Cyclomatic'') = None
       \<and> shared_dict s (Some ''five'', ''NPath'') = None" ..
  then have run: "?run = Some s" and fin: "finished s" by simp_all
  have names: "distinct (map metric_name ?gens)"
    by (simp add: counting_generator_def endless_generator_def raising_generator_def)
  have handled: "\<forall>cfg \<in> set ?cfgs. \<forall>g \<in> set ?gens.
      in_methodList [''one'', ''fifty''] cfg \<longrightarrow>
      \<not> ends_worker (generator_dict ?gens) (cfg, metric_name g)"
    by (simp add: ends_worker_def generator_dict_def skipped_def timeout_of_def in_methodList_def
        java_graph_def counting_generator_def endless_generator_def raising_generator_def)
  have "(0::nat) < 2" by simp
  from completed_run_keys [OF this names run fin handled] s show ?thesis
    by (intro exI [of _ s]) simp
qed

text \<open>
  The claim as stated fails: with one graph, whose name is in the method list, and one
  generator, which applies to it and whose evaluation raises IndexError, the run of
  \<open>do_metrics_multithreaded\<close> is over after the call and the result map is empty.
\<close>

theorem IndexError_task_has_no_key:
  "\<exists>s. do_metrics_multithreaded [raising_generator ''NPath'' IndexError] [java_graph ''one'' 1]
          [''one''] [0, 0, 0, 1, 2, 3, 4, 5, 6, 7] = Some s
       \<and> finished s
       \<and> in_methodList [''one''] (java_graph ''one'' 1)
       \<and> \<not> skipped (raising_generator ''NPath'' IndexError) (java_graph ''one'' 1)
       \<and> evaluated s = [(java_graph ''one'' 1, ''NPath'')]
       \<and> shared_dict s = Map.empty"
  by (simp add: do_metrics_multithreaded_def run_defs eval_nat_numeral)

subsection \<open>A task that exceeds its timeout\<close>














section \<open>The feature vector\<close>

text \<open>
  Claim C7 places the coefficient of a linear result in the fourth field (\<open>poly_coeff\<close>)
  and 0 in the fields the type does not use. For the linear APC \<^verbatim>\<open>n\<close> with the path
  complexity \<^verbatim>\<open>2.0*n + 3.0\<close> the code returns \<open>[1, 0, 0, 0, 2.0]\<close>: the coefficient is in
  the fifth field (\<open>poly_power\<close>) and the fourth is 0, whereas the constant and the
  polynomial branch put their coefficient into the fourth field.
\<close>

theorem linear_coefficient_in_last_field:
  assumes "float ''2.0'' = Some c"
  shows "feature_vector float coeff ''n'' ''2.0*n + 3.0'' =
           Inr (Entries [IntEntry 1, IntEntry 0, IntEntry 0, IntEntry 0, FloatEntry c])"
  using assms by (simp add: feature_vector_def is_space_def)


theorem linear_coefficient_in_last_field_witness:
  "feature_vector (\<lambda>s. if s = ''2.0'' then Some (2 :: real) else None) None ''n'' ''2.0*n + 3.0'' =
     Inr (Entries [IntEntry 1, IntEntry 0, IntEntry 0, IntEntry 0, FloatEntry 2])"
  using linear_coefficient_in_last_field
    [of "\<lambda>s. if s = ''2.0'' then Some (2 :: real) else None" 2 None]
  by simp

end
